theory Spec2Isabelle
  imports Main
begin

section \<open>Go standard library functions used by the router\<close>

text \<open>
  The router calls four functions of the Go standard library. They are not part of the
  repository; they are written here after their documented behaviour, for Go strings as
  byte sequences and for the Unix path separator.
\<close>

text \<open>\<^verbatim>\<open>strings.TrimPrefix(s, prefix)\<close>: \<open>s\<close> without the leading \<open>prefix\<close>, or \<open>s\<close>.\<close>

definition strings_TrimPrefix :: "string \<Rightarrow> string \<Rightarrow> string" where
  "strings_TrimPrefix s prefix =
     (if take (length prefix) s = prefix then drop (length prefix) s else s)"

text \<open>
  \<^verbatim>\<open>strings.Split(s, sep)\<close> for a separator of one byte: the substrings between the
  separators; the result always has one element more than \<open>s\<close> has separators.
\<close>

fun strings_Split :: "string \<Rightarrow> char \<Rightarrow> string list" where
  "strings_Split [] sep = [[]]"
| "strings_Split (c # cs) sep =
     (if c = sep then [] # strings_Split cs sep
      else (case strings_Split cs sep of
              [] \<Rightarrow> [[c]]
            | x # xs \<Rightarrow> (c # x) # xs))"

text \<open>\<^verbatim>\<open>strings.Join(elems, sep)\<close>.\<close>

fun strings_Join :: "string list \<Rightarrow> string \<Rightarrow> string" where
  "strings_Join [] sep = []"
| "strings_Join [e] sep = e"
| "strings_Join (e # es) sep = e @ sep @ strings_Join es sep"

text \<open>
  \<^verbatim>\<open>filepath.Clean\<close>: empty and \<open>.\<close> elements are dropped, an inner \<open>..\<close> removes the
  element before it, a \<open>..\<close> at the root is dropped, a \<open>..\<close> that cannot go back in a
  relative path is kept; the empty result is \<open>.\<close>. \<open>out\<close> is the list of elements kept
  so far.
\<close>

fun clean_elems :: "bool \<Rightarrow> string list \<Rightarrow> string list \<Rightarrow> string list" where
  "clean_elems rooted [] out = out"
| "clean_elems rooted (e # es) out =
     (if e = [] \<or> e = ''.'' then clean_elems rooted es out
      else if e = ''..'' then
        (if out \<noteq> [] \<and> last out \<noteq> ''..'' then clean_elems rooted es (butlast out)
         else if \<not> rooted then clean_elems rooted es (out @ [''..''])
         else clean_elems rooted es out)
      else clean_elems rooted es (out @ [e]))"

definition filepath_Clean :: "string \<Rightarrow> string" where
  "filepath_Clean path =
     (if path = [] then ''.''
      else
        let rooted = (hd path = CHR ''/'');
            out = (if rooted then ''/'' else []) @
                  strings_Join (clean_elems rooted (strings_Split path (CHR ''/'')) []) ''/''
        in if out = [] then ''.'' else out)"

text \<open>
  \<^verbatim>\<open>filepath.Join\<close>: the elements from the first non-empty one on, joined with the
  separator and cleaned; the empty string when every element is empty.
\<close>

fun filepath_Join :: "string list \<Rightarrow> string" where
  "filepath_Join [] = []"
| "filepath_Join (e # es) =
     (if e \<noteq> [] then filepath_Clean (strings_Join (e # es) ''/'') else filepath_Join es)"


section \<open>The data model\<close>

text \<open>
  A handler is a Go function value; \<open>Noop\<close> is the package's own handler, any other one
  is identified by a value of type \<open>'h\<close>. A nil handler is \<open>None\<close>.
\<close>

datatype 'h HandlerFunc = Noop | Func 'h

text \<open>\<^verbatim>\<open>RouterOption\<close>; the tag is an \<^verbatim>\<open>interface{}\<close>, nil when never set.\<close>

record 't RouterOption =
  Tag :: "'t option"

type_synonym 't RouterOptionFn = "'t RouterOption \<Rightarrow> 't RouterOption"

definition Tag_fn :: "'t \<Rightarrow> 't RouterOptionFn" where
  "Tag_fn tag = (\<lambda>opt. opt\<lparr>Tag := Some tag\<rparr>)"

text \<open>
  \<^verbatim>\<open>Node\<close>. Every node is allocated by \<^verbatim>\<open>add\<close> or \<^verbatim>\<open>Handle\<close> and stored in one
  \<^verbatim>\<open>Children\<close> map or one \<^verbatim>\<open>trees\<close> entry only, so the pointer structure is a tree and
  a node is modelled by its value. The back pointer \<^verbatim>\<open>Router\<close> is read by
  \<^verbatim>\<open>ServeHTTP\<close> only and is left out. \<open>Option\<close> is a pointer, nil at a root.
\<close>

datatype ('h, 't) Node =
  Node (Path: string) (Key: string) (Children: "string \<Rightarrow> ('h, 't) Node option")
       (Handler: "'h HandlerFunc option") (Param: string) (Star: bool)
       (Option: "'t RouterOption option")

type_synonym RouterParams = "string \<Rightarrow> string option"

datatype error = ErrRouterDuplicate | ErrRouterSyntax

text \<open>
  \<^verbatim>\<open>Router\<close>: the tries by method. The middlewares and the not-found and panic handlers
  are neither read nor written by registration and search.
\<close>

record ('h, 't) Router =
  trees :: "string \<Rightarrow> ('h, 't) Node option"

definition MethodAny :: string where
  "MethodAny = ''ANY''"

definition New :: "('h, 't) Router" where
  "New = \<lparr>trees = Map.empty\<rparr>"


section \<open>Registration\<close>

text \<open>The assignments \<^verbatim>\<open>current.Children[k] = next\<close> and \<^verbatim>\<open>current.Handler = handler\<close>.\<close>

definition set_child :: "('h, 't) Node \<Rightarrow> string \<Rightarrow> ('h, 't) Node \<Rightarrow> ('h, 't) Node" where
  "set_child n k c =
     Node (Path n) (Key n) ((Children n)(k \<mapsto> c)) (Handler n) (Param n) (Star n) (Option n)"

definition set_Handler :: "('h, 't) Node \<Rightarrow> 'h HandlerFunc \<Rightarrow> ('h, 't) Node" where
  "set_Handler n h =
     Node (Path n) (Key n) (Children n) (Some h) (Param n) (Star n) (Option n)"

text \<open>
  The first loop of \<^verbatim>\<open>add\<close>: it counts the segments \<^verbatim>\<open>*name\<close> and returns the syntax
  error as soon as there are two.
\<close>

fun count_stars :: "string list \<Rightarrow> nat \<Rightarrow> error + nat" where
  "count_stars [] stars = Inr stars"
| "count_stars (k # ks) stars =
     (let stars' = (if length k > 1 \<and> hd k = CHR ''*'' then stars + 1 else stars)
      in if stars' > 1 then Inl ErrRouterSyntax else count_stars ks stars')"

text \<open>
  The end of \<^verbatim>\<open>add\<close>, reached when the second loop ends or breaks: the duplicate error,
  or the handler is stored in the current node.
\<close>

definition add_finish ::
  "'h HandlerFunc \<Rightarrow> bool \<Rightarrow> ('h, 't) Node \<Rightarrow> error option \<times> ('h, 't) Node" where
  "add_finish handler duplicate current =
     (if duplicate then (Some ErrRouterDuplicate, current)
      else (None, set_Handler current handler))"

text \<open>
  The second loop of \<^verbatim>\<open>add\<close>, from the node \<open>current\<close> on, over the segments still to
  come. The code changes the trie in place and returns an error or nil; the model
  returns the error (\<open>None\<close> for nil) together with the subtree of \<open>current\<close> as the call
  leaves it, whether or not it fails.
\<close>

fun add_loop ::
  "string \<Rightarrow> 'h HandlerFunc \<Rightarrow> 't RouterOption \<Rightarrow> nat \<Rightarrow> string list \<Rightarrow> bool \<Rightarrow> bool \<Rightarrow>
   ('h, 't) Node \<Rightarrow> error option \<times> ('h, 't) Node" where
  "add_loop path handler option stars [] duplicate starPrev current =
     add_finish handler duplicate current"
| "add_loop path handler option stars (k0 # ks) duplicate starPrev current =
     (let capture = (length k0 > 1 \<and> (hd k0 = CHR '':'' \<or> hd k0 = CHR ''*''));
          param = (if capture then tl k0 else []);
          k = (if capture then ''*'' else k0)
      in if stars > 0 \<and> starPrev then
           (case Children current k of
              Some c \<Rightarrow> add_finish handler duplicate current
            | None \<Rightarrow> (Some ErrRouterSyntax, current))
         else
           (case Children current k of
              Some next \<Rightarrow>
                (case add_loop path handler option stars ks duplicate True next of
                   (err, next') \<Rightarrow> (err, set_child current k next'))
            | None \<Rightarrow>
                (case add_loop path handler option stars ks False starPrev
                        (Node path k Map.empty None param (stars > 0) (Some option)) of
                   (err, next') \<Rightarrow> (err, set_child current k next'))))"

definition add ::
  "('h, 't) Node \<Rightarrow> string \<Rightarrow> 'h HandlerFunc \<Rightarrow> 't RouterOption \<Rightarrow>
   error option \<times> ('h, 't) Node" where
  "add n path handler option =
     (let slice = strings_Split (strings_TrimPrefix path ''/'') (CHR ''/'')
      in case count_stars slice 0 of
           Inl e \<Rightarrow> (Some e, n)
         | Inr stars \<Rightarrow> add_loop path handler option stars slice True False n)"

text \<open>
  \<^verbatim>\<open>Handle\<close>: a nil handler becomes \<open>Noop\<close>, the trie of the method is created when it
  is missing, the option functions are applied to a fresh option, and the path is added.
  The result is the error and the router as the call leaves it.
\<close>

definition Handle ::
  "string \<Rightarrow> string \<Rightarrow> 'h HandlerFunc option \<Rightarrow> 't RouterOptionFn list \<Rightarrow> ('h, 't) Router \<Rightarrow>
   error option \<times> ('h, 't) Router" where
  "Handle method path handler optionFns r =
     (let handler' = (case handler of None \<Rightarrow> Noop | Some h \<Rightarrow> h);
          root = (case trees r method of
                    None \<Rightarrow> Node ''/'' [] Map.empty None [] False None
                  | Some t \<Rightarrow> t);
          routerOption = fold (\<lambda>f opt. f opt) optionFns \<lparr>Tag = None\<rparr>
      in case add root path handler' routerOption of
           (err, t') \<Rightarrow> (err, r\<lparr>trees := (trees r)(method \<mapsto> t')\<rparr>))"


section \<open>Resolution\<close>

text \<open>
  The loop of \<^verbatim>\<open>find\<close> over the segments from index \<open>i\<close> on (the list is
  \<^verbatim>\<open>slice[i:]\<close>), and the two steps after the loop.
\<close>

fun find_loop ::
  "string list \<Rightarrow> ('h, 't) Node \<Rightarrow> RouterParams \<Rightarrow> ('h, 't) Node option \<times> RouterParams" where
  "find_loop [] cur params =
     (case (case Children cur ''*'' of
              Some next \<Rightarrow> if Star next then (next, params(Param next \<mapsto> ''/'')) else (cur, params)
            | None \<Rightarrow> (cur, params)) of
        (cur', params') \<Rightarrow>
          (if Handler cur' = None then (None, params') else (Some cur', params')))"
| "find_loop (k # ks) cur params =
     (case (case Children cur k of Some next \<Rightarrow> Some next | None \<Rightarrow> Children cur ''*'') of
        None \<Rightarrow> (None, params)
      | Some next \<Rightarrow>
          if Param next \<noteq> [] then
            (if Star next then (Some next, params(Param next \<mapsto> filepath_Join (''/'' # k # ks)))
             else find_loop ks next (params(Param next \<mapsto> k)))
          else find_loop ks next params)"

definition find_node ::
  "('h, 't) Node \<Rightarrow> string \<Rightarrow> ('h, 't) Node option \<times> RouterParams" where
  "find_node n path =
     find_loop (strings_Split (strings_TrimPrefix path ''/'') (CHR ''/'')) n Map.empty"

text \<open>
  \<^verbatim>\<open>Search\<close>. The second component is the parameter map, \<open>None\<close> when the code returns
  the nil map. The test \<^verbatim>\<open>node != nil || method == MethodAny\<close> is the case distinction on
  the node, then on the method.
\<close>

definition Search ::
  "('h, 't) Router \<Rightarrow> string \<Rightarrow> string \<Rightarrow> ('h, 't) Node option \<times> RouterParams option" where
  "Search r method path =
     (case (case trees r method of
              Some t \<Rightarrow> Some t
            | None \<Rightarrow> if method \<noteq> MethodAny then trees r MethodAny else None) of
        None \<Rightarrow> (None, None)
      | Some t \<Rightarrow>
          (case find_node t path of
             (Some node, params) \<Rightarrow> (Some node, Some params)
           | (None, params) \<Rightarrow>
               if method = MethodAny then (None, Some params)
               else (case trees r MethodAny of
                       None \<Rightarrow> (None, None)
                     | Some t' \<Rightarrow> (case find_node t' path of (n', p') \<Rightarrow> (n', Some p')))))"

section \<open>Notions used to state the properties\<close>

text \<open>
  The tests that both loops of \<^verbatim>\<open>add\<close> make on a segment: a capture is a segment of
  at least two bytes that starts with \<open>:\<close> or \<open>*\<close>, a wildcard one that starts with
  \<open>*\<close>; the key under which a segment is stored and the parameter name it records.
\<close>

definition is_capture :: "string \<Rightarrow> bool" where
  "is_capture k = (length k > 1 \<and> (hd k = CHR '':'' \<or> hd k = CHR ''*''))"

definition is_star :: "string \<Rightarrow> bool" where
  "is_star k = (length k > 1 \<and> hd k = CHR ''*'')"

definition seg_key :: "string \<Rightarrow> string" where
  "seg_key k = (if is_capture k then ''*'' else k)"

definition seg_param :: "string \<Rightarrow> string" where
  "seg_param k = (if is_capture k then tl k else [])"

text \<open>The node that \<^verbatim>\<open>add\<close> allocates for the segment \<open>k0\<close>.\<close>

definition new_node :: "string \<Rightarrow> 't RouterOption \<Rightarrow> nat \<Rightarrow> string \<Rightarrow> ('h, 't) Node" where
  "new_node path opt stars k0 =
     Node path (seg_key k0) Map.empty None (seg_param k0) (stars > 0) (Some opt)"

text \<open>The variable \<^verbatim>\<open>slice\<close> of \<^verbatim>\<open>add\<close> and \<^verbatim>\<open>find\<close>.\<close>

definition path_slice :: "string \<Rightarrow> string list" where
  "path_slice path = strings_Split (strings_TrimPrefix path ''/'') (CHR ''/'')"

text \<open>The root that \<^verbatim>\<open>Handle\<close> allocates, and the trie that \<^verbatim>\<open>Handle\<close> adds to.\<close>

definition empty_root :: "('h, 't) Node" where
  "empty_root = Node ''/'' [] Map.empty None [] False None"

definition method_root :: "('h, 't) Router \<Rightarrow> string \<Rightarrow> ('h, 't) Node" where
  "method_root r method = (case trees r method of None \<Rightarrow> empty_root | Some t \<Rightarrow> t)"

text \<open>The trie has a node for every key of the list, each the child of the one before.\<close>

fun has_path :: "string list \<Rightarrow> ('h, 't) Node \<Rightarrow> bool" where
  "has_path [] n = True"
| "has_path (k # ks) n = (case Children n k of None \<Rightarrow> False | Some c \<Rightarrow> has_path ks c)"



text \<open>The handler and the option that \<^verbatim>\<open>Handle\<close> passes to \<^verbatim>\<open>add\<close>.\<close>

definition handler_or_Noop :: "'h HandlerFunc option \<Rightarrow> 'h HandlerFunc" where
  "handler_or_Noop handler = (case handler of None \<Rightarrow> Noop | Some h \<Rightarrow> h)"

definition apply_options :: "'t RouterOptionFn list \<Rightarrow> 't RouterOption" where
  "apply_options optionFns = fold (\<lambda>f opt. f opt) optionFns \<lparr>Tag = None\<rparr>"

text \<open>
  What \<^verbatim>\<open>Search\<close> returns when it returns the result of \<^verbatim>\<open>find\<close> on the trie \<open>t\<close>, and
  what it returns when it falls back on the trie of \<^verbatim>\<open>MethodAny\<close>.
\<close>

definition find_result ::
  "('h, 't) Node \<Rightarrow> string \<Rightarrow> ('h, 't) Node option \<times> RouterParams option" where
  "find_result t path = (fst (find_node t path), Some (snd (find_node t path)))"

definition any_result ::
  "('h, 't) Router \<Rightarrow> string \<Rightarrow> ('h, 't) Node option \<times> RouterParams option" where
  "any_result r path =
     (case trees r MethodAny of None \<Rightarrow> (None, None) | Some a \<Rightarrow> find_result a path)"

text \<open>
  What the loop of \<^verbatim>\<open>find\<close> does once it has moved to the node \<open>next\<close> for the segment
  \<open>k\<close>, with the segments \<open>ks\<close> still to come.
\<close>

definition visit ::
  "string \<Rightarrow> string list \<Rightarrow> ('h, 't) Node \<Rightarrow> RouterParams \<Rightarrow>
   ('h, 't) Node option \<times> RouterParams" where
  "visit k ks next params =
     (if Param next \<noteq> [] then
        (if Star next then (Some next, params(Param next \<mapsto> filepath_Join (''/'' # k # ks)))
         else find_loop ks next (params(Param next \<mapsto> k)))
      else find_loop ks next params)"


section \<open>Registration: the second loop\<close>

lemma strings_Split_not_Nil: "strings_Split s c \<noteq> []"
  by (induction s) (auto split: list.splits)

lemma add_loop_Cons:
  "add_loop path h opt stars (k0 # ks) dup sp cur =
     (if stars > 0 \<and> sp then
        (case Children cur (seg_key k0) of
           Some c \<Rightarrow> add_finish h dup cur
         | None \<Rightarrow> (Some ErrRouterSyntax, cur))
      else
        (case Children cur (seg_key k0) of
           Some next \<Rightarrow>
             (fst (add_loop path h opt stars ks dup True next),
              set_child cur (seg_key k0) (snd (add_loop path h opt stars ks dup True next)))
         | None \<Rightarrow>
             (fst (add_loop path h opt stars ks False sp (new_node path opt stars k0)),
              set_child cur (seg_key k0)
                (snd (add_loop path h opt stars ks False sp (new_node path opt stars k0))))))"
proof -
  define cap where "cap \<longleftrightarrow> length k0 > 1 \<and> (hd k0 = CHR '':'' \<or> hd k0 = CHR ''*'')"
  have k: "seg_key k0 = (if cap then ''*'' else k0)"
    and p: "seg_param k0 = (if cap then tl k0 else [])"
    by (simp_all only: seg_key_def seg_param_def is_capture_def cap_def)
  show ?thesis
    unfolding add_loop.simps(2) [of path h opt stars k0 ks dup sp cur] Let_def new_node_def k p
      cap_def [symmetric] case_prod_beta
    by (cases cap) (simp_all split: option.splits)
qed

declare add_loop.simps(2) [simp del]

lemma add_loop_stop:
  "stars > 0 \<Longrightarrow> sp \<Longrightarrow>
   add_loop path h opt stars (k0 # ks) dup sp cur =
     (case Children cur (seg_key k0) of
        Some c \<Rightarrow> add_finish h dup cur
      | None \<Rightarrow> (Some ErrRouterSyntax, cur))"
  by (simp add: add_loop_Cons)

lemma add_loop_Some:
  "\<not> (stars > 0 \<and> sp) \<Longrightarrow> Children cur (seg_key k0) = Some nxt \<Longrightarrow>
   add_loop path h opt stars (k0 # ks) dup sp cur =
     (fst (add_loop path h opt stars ks dup True nxt),
      set_child cur (seg_key k0) (snd (add_loop path h opt stars ks dup True nxt)))"
  by (auto simp: add_loop_Cons)

lemma add_loop_None:
  "\<not> (stars > 0 \<and> sp) \<Longrightarrow> Children cur (seg_key k0) = None \<Longrightarrow>
   add_loop path h opt stars (k0 # ks) dup sp cur =
     (fst (add_loop path h opt stars ks False sp (new_node path opt stars k0)),
      set_child cur (seg_key k0)
        (snd (add_loop path h opt stars ks False sp (new_node path opt stars k0))))"
  by (auto simp: add_loop_Cons)

lemma Children_new_node: "Children (new_node path opt stars k0) = Map.empty"
  by (simp add: new_node_def)

lemma set_child_same: "Children cur k = Some c \<Longrightarrow> set_child cur k c = cur"
  by (cases cur) (auto simp: set_child_def)

lemma Children_set_child: "Children (set_child cur k c) = (Children cur)(k \<mapsto> c)"
  by (simp add: set_child_def)

lemma set_child_neq: "Children cur k \<noteq> Some c \<Longrightarrow> set_child cur k c \<noteq> cur"
proof
  assume a: "Children cur k \<noteq> Some c" and "set_child cur k c = cur"
  then have "Children (set_child cur k c) k = Children cur k" by simp
  with a show False by (simp add: Children_set_child)
qed

lemma add_loop_fresh_ok:
  "Children cur = Map.empty \<Longrightarrow> \<not> (stars > 0 \<and> sp) \<Longrightarrow>
   fst (add_loop path h opt stars ks False sp cur) = None"
proof (induction ks arbitrary: cur)
  case Nil
  then show ?case by (simp add: add_finish_def)
next
  case (Cons k0 ks)
  from Cons.prems have "Children cur (seg_key k0) = None" by simp
  from add_loop_None [OF Cons.prems(2) this]
    Cons.IH [OF Children_new_node Cons.prems(2)]
  show ?case by simp
qed

lemma add_loop_error_unchanged:
  "fst (add_loop path h opt stars ks dup sp cur) \<noteq> None \<Longrightarrow>
   snd (add_loop path h opt stars ks dup sp cur) = cur"
proof (induction ks arbitrary: dup sp cur)
  case Nil
  then show ?case by (simp add: add_finish_def split: if_splits)
next
  case (Cons k0 ks)
  show ?case
  proof (cases "stars > 0 \<and> sp")
    case True
    with Cons.prems show ?thesis
      by (simp add: add_loop_stop add_finish_def split: option.splits if_splits)
  next
    case False
    show ?thesis
    proof (cases "Children cur (seg_key k0)")
      case None
      have "fst (add_loop path h opt stars ks False sp (new_node path opt stars k0)) = None"
        by (rule add_loop_fresh_ok [OF Children_new_node False])
      with Cons.prems show ?thesis by (simp add: add_loop_None [OF False None])
    next
      case (Some nxt)
      with Cons.prems have "fst (add_loop path h opt stars ks dup True nxt) \<noteq> None"
        by (simp add: add_loop_Some [OF False Some])
      from Cons.IH [OF this] Some show ?thesis
        by (simp add: add_loop_Some [OF False Some] set_child_same)
    qed
  qed
qed

lemma add_loop_ok_changed:
  "fst (add_loop path h opt stars ks True sp cur) = None \<Longrightarrow>
   snd (add_loop path h opt stars ks True sp cur) \<noteq> cur"
proof (induction ks arbitrary: sp cur)
  case Nil
  then show ?case by (simp add: add_finish_def)
next
  case (Cons k0 ks)
  show ?case
  proof (cases "stars > 0 \<and> sp")
    case True
    with Cons.prems show ?thesis
      by (simp add: add_loop_stop add_finish_def split: option.splits)
  next
    case False
    show ?thesis
    proof (cases "Children cur (seg_key k0)")
      case None
      then show ?thesis
        by (simp add: add_loop_None [OF False None] set_child_neq)
    next
      case (Some nxt)
      with Cons.prems have "fst (add_loop path h opt stars ks True True nxt) = None"
        by (simp add: add_loop_Some [OF False Some])
      from Cons.IH [OF this] Some show ?thesis
        by (simp add: add_loop_Some [OF False Some] set_child_neq)
    qed
  qed
qed

lemma count_stars_eq:
  "n \<le> 1 \<Longrightarrow> count_stars ks n =
     (if n + length (filter is_star ks) > 1 then Inl ErrRouterSyntax
      else Inr (n + length (filter is_star ks)))"
  by (induction ks arbitrary: n) (auto simp: is_star_def Let_def)

section \<open>Registration: \<open>add\<close> and \<open>Handle\<close>\<close>

lemmas eval_defs = Handle_def add_def New_def add_finish_def set_child_def set_Handler_def
  strings_TrimPrefix_def find_node_def Search_def MethodAny_def Let_def filepath_Clean_def
  add_loop.simps(2)

lemma add_eq:
  "add n path h opt =
     (if length (filter is_star (path_slice path)) > 1 then (Some ErrRouterSyntax, n)
      else add_loop path h opt (length (filter is_star (path_slice path))) (path_slice path)
             True False n)"
  by (simp add: add_def path_slice_def [symmetric] count_stars_eq Let_def)

lemma add_error_unchanged: "fst (add n path h opt) \<noteq> None \<Longrightarrow> snd (add n path h opt) = n"
  by (simp add: add_eq add_loop_error_unchanged split: if_splits)

lemma add_ok_changed: "fst (add n path h opt) = None \<Longrightarrow> snd (add n path h opt) \<noteq> n"
  by (simp add: add_eq add_loop_ok_changed split: if_splits)

lemma Handle_eq:
  "Handle method path handler optionFns r =
     (fst (add (method_root r method) path (handler_or_Noop handler) (apply_options optionFns)),
      r\<lparr>trees := (trees r)(method \<mapsto>
         snd (add (method_root r method) path (handler_or_Noop handler)
                (apply_options optionFns)))\<rparr>)"
  unfolding Handle_def method_root_def empty_root_def handler_or_Noop_def apply_options_def
    Let_def
  by (simp add: case_prod_beta)

lemma Handle_error_trees:
  assumes "fst (Handle method path handler optionFns r) \<noteq> None"
  shows "trees (snd (Handle method path handler optionFns r)) =
           (trees r)(method \<mapsto> method_root r method)"
  using assms add_error_unchanged [of "method_root r method" path "handler_or_Noop handler"
      "apply_options optionFns"]
  by (simp add: Handle_eq)


section \<open>More than one wildcard\<close>



section \<open>Search and the tries by method\<close>

lemma find_node_empty_root: "find_node empty_root path = (None, Map.empty)"
proof -
  obtain k ks where "strings_Split (strings_TrimPrefix path ''/'') (CHR ''/'') = k # ks"
    using strings_Split_not_Nil by (meson list.exhaust)
  then show ?thesis by (simp add: find_node_def empty_root_def)
qed

lemma find_result_empty_root: "find_result empty_root path = (None, Some Map.empty)"
  by (simp add: find_result_def find_node_empty_root)

lemma Search_cong: "trees r' = trees r \<Longrightarrow> Search r' m p = Search r m p"
  by (cases r, cases r') simp

lemma Search_Any: "Search r MethodAny p = any_result r p"
  by (cases "trees r MethodAny"; cases "find_node (the (trees r MethodAny)) p";
      cases "fst (find_node (the (trees r MethodAny)) p)")
     (simp_all add: Search_def any_result_def find_result_def)

lemma Search_None: "trees r m = None \<Longrightarrow> Search r m p = any_result r p"
proof (cases "m = MethodAny")
  case True
  then show ?thesis by (simp add: Search_Any)
next
  case False
  assume n: "trees r m = None"
  show ?thesis
  proof (cases "trees r MethodAny")
    case None
    with n False show ?thesis by (simp add: Search_def any_result_def)
  next
    case (Some a)
    obtain x ps where f: "find_node a p = (x, ps)" by (cases "find_node a p")
    with n False Some show ?thesis
      by (cases x) (simp_all add: Search_def any_result_def find_result_def)
  qed
qed

lemma Search_Some_hit:
  "trees r m = Some t \<Longrightarrow> fst (find_node t p) \<noteq> None \<Longrightarrow> Search r m p = find_result t p"
proof -
  assume t: "trees r m = Some t" and h: "fst (find_node t p) \<noteq> None"
  obtain x ps where f: "find_node t p = (x, ps)" by (cases "find_node t p")
  with h obtain n where "x = Some n" by auto
  with t f show ?thesis by (simp add: Search_def find_result_def)
qed

lemma Search_Some_miss:
  "trees r m = Some t \<Longrightarrow> fst (find_node t p) = None \<Longrightarrow> Search r m p = any_result r p"
proof (cases "m = MethodAny")
  case True
  then show ?thesis by (simp add: Search_Any)
next
  case False
  assume t: "trees r m = Some t" and h: "fst (find_node t p) = None"
  obtain x ps where f: "find_node t p = (x, ps)" by (cases "find_node t p")
  with h have x: "x = None" by simp
  show ?thesis
  proof (cases "trees r MethodAny")
    case None
    with t f x False show ?thesis by (simp add: Search_def any_result_def)
  next
    case (Some a)
    obtain y qs where "find_node a p = (y, qs)" by (cases "find_node a p")
    with t f x False Some show ?thesis
      by (simp add: Search_def any_result_def find_result_def)
  qed
qed

lemma Search_new_empty_trie:
  assumes n: "trees r m0 = None" and tr: "trees r' = (trees r)(m0 \<mapsto> empty_root)"
  shows "fst (Search r' m p) = fst (Search r m p) \<and>
         (snd (Search r' m p) = snd (Search r m p) \<or>
          Search r m p = (None, None) \<and> snd (Search r' m p) = Some Map.empty)"
proof -
  have any: "any_result r' p = (if m0 = MethodAny then (None, Some Map.empty) else any_result r p)"
    by (simp add: any_result_def tr find_result_empty_root)
  have any0: "m0 = MethodAny \<Longrightarrow> any_result r p = (None, None)"
    using n by (simp add: any_result_def)
  show ?thesis
  proof (cases "m = m0")
    case True
    have "Search r' m p = any_result r' p"
      by (rule Search_Some_miss [of r' m empty_root p])
         (simp_all add: tr True find_node_empty_root)
    moreover have "Search r m p = any_result r p"
      using n True by (intro Search_None) simp
    ultimately show ?thesis using any any0 by (cases "m0 = MethodAny") simp_all
  next
    case False
    then have same: "trees r' m = trees r m" by (simp add: tr)
    show ?thesis
    proof (cases "trees r m")
      case None
      with same have n': "trees r' m = None" by simp
      have "Search r' m p = any_result r' p" "Search r m p = any_result r p"
        by (rule Search_None [OF n'], rule Search_None [OF None])
      then show ?thesis using any any0 by (cases "m0 = MethodAny") simp_all
    next
      case (Some t)
      with same have s': "trees r' m = Some t" by simp
      show ?thesis
      proof (cases "fst (find_node t p)")
        case None
        have "Search r' m p = any_result r' p" "Search r m p = any_result r p"
          by (rule Search_Some_miss [OF s' None], rule Search_Some_miss [OF Some None])
        then show ?thesis using any any0 by (cases "m0 = MethodAny") simp_all
      next
        case (Some x)
        then have hit: "fst (find_node t p) \<noteq> None" by simp
        have "Search r' m p = find_result t p" "Search r m p = find_result t p"
          by (rule Search_Some_hit [OF s' hit], rule Search_Some_hit [OF \<open>trees r m = Some t\<close> hit])
        then show ?thesis by simp
      qed
    qed
  qed
qed


section \<open>A registration that fails\<close>

text \<open>
  C10, as the code has it. When \<^verbatim>\<open>Handle\<close> returns an error, every trie that existed
  is left as it was: no node is added and none is changed. \<^verbatim>\<open>Handle\<close> allocates the root
  of the method before it calls \<^verbatim>\<open>add\<close>, so a method that had no trie has an empty one
  afterwards. Every later \<^verbatim>\<open>Search\<close> returns the same node as before, and the same
  parameter map, except that a search that returned no node and the nil map may now return
  no node and an empty map.
\<close>

theorem failed_Handle_keeps_routes:
  assumes "fst (Handle method path handler optionFns r) \<noteq> None"
  shows "trees (snd (Handle method path handler optionFns r)) =
           (trees r)(method \<mapsto> method_root r method) \<and>
         (\<forall>m p. fst (Search (snd (Handle method path handler optionFns r)) m p) =
                  fst (Search r m p) \<and>
                (snd (Search (snd (Handle method path handler optionFns r)) m p) =
                   snd (Search r m p) \<or>
                 Search r m p = (None, None) \<and>
                 snd (Search (snd (Handle method path handler optionFns r)) m p) =
                   Some Map.empty))"
proof -
  let ?r' = "snd (Handle method path handler optionFns r)"
  have tr: "trees ?r' = (trees r)(method \<mapsto> method_root r method)"
    by (rule Handle_error_trees [OF assms])
  have "fst (Search ?r' m p) = fst (Search r m p) \<and>
        (snd (Search ?r' m p) = snd (Search r m p) \<or>
         Search r m p = (None, None) \<and> snd (Search ?r' m p) = Some Map.empty)" for m p
  proof (cases "trees r method")
    case (Some t)
    then have "trees ?r' = trees r" by (auto simp: tr method_root_def)
    then have "Search ?r' m p = Search r m p" by (rule Search_cong)
    then show ?thesis by simp
  next
    case None
    then have tr': "trees ?r' = (trees r)(method \<mapsto> empty_root)"
      by (simp add: tr method_root_def)
    from Search_new_empty_trie [OF None tr'] show ?thesis .
  qed
  with tr show ?thesis by blast
qed

theorem failed_Handle_keeps_routes_witness:
  "fst (Handle ''GET'' ''/posts2/*id'' None ([] :: string RouterOptionFn list)
          (snd (Handle ''GET'' ''/posts2'' (Some (Func (1::nat))) [] New))) \<noteq> None \<and>
   fst (Search (snd (Handle ''GET'' ''/posts2/*id'' None ([] :: string RouterOptionFn list)
          (snd (Handle ''GET'' ''/posts2'' (Some (Func (1::nat))) [] New)))) ''GET'' ''/posts2'') =
   fst (Search (snd (Handle ''GET'' ''/posts2'' (Some (Func (1::nat)))
          ([] :: string RouterOptionFn list) New)) ''GET'' ''/posts2'')"
proof -
  have h: "fst (Handle ''GET'' ''/posts2/*id'' None ([] :: string RouterOptionFn list)
          (snd (Handle ''GET'' ''/posts2'' (Some (Func (1::nat))) [] New))) \<noteq> None"
    by (simp add: eval_defs)
  from h failed_Handle_keeps_routes [OF h] show ?thesis by blast
qed

text \<open>
  The claim as stated fails: on a new router, a rejected registration under \<^verbatim>\<open>ANY\<close>
  changes what \<^verbatim>\<open>Search\<close> returns, from the nil map to an empty map.
\<close>

theorem failed_Handle_changes_Search_counterexample:
  "fst (Handle ''ANY'' ''/a/*b/*c'' None ([] :: string RouterOptionFn list)
          (New :: (nat, string) Router)) = Some ErrRouterSyntax \<and>
   Search (New :: (nat, string) Router) ''ANY'' ''/x'' = (None, None) \<and>
   Search (snd (Handle ''ANY'' ''/a/*b/*c'' None ([] :: string RouterOptionFn list)
                  (New :: (nat, string) Router))) ''ANY'' ''/x'' = (None, Some Map.empty)"
  by (simp add: eval_defs)


section \<open>A capture before a wildcard\<close>

text \<open>
  C1 fails on the code. \<^verbatim>\<open>add\<close> sets \<^verbatim>\<open>Star\<close> on every node it allocates for a pattern
  that has a wildcard, also on the node of a capture \<^verbatim>\<open>:name\<close> before the wildcard, and
  \<^verbatim>\<open>find\<close> stops at the first node with a parameter name and \<^verbatim>\<open>Star\<close>. With
  \<^verbatim>\<open>/:a/*b\<close> registered on a new router, the search for \<^verbatim>\<open>/x/y\<close> returns the node of
  \<^verbatim>\<open>:a\<close>, which has no handler, with \<open>a\<close> bound to \<^verbatim>\<open>/x/y\<close> and \<open>b\<close> unbound.
\<close>

theorem capture_before_wildcard_returns_handlerless_node:
  "fst (Handle method ''/:a/*b'' (Some h) optionFns New) = None \<and>
   (case Search (snd (Handle method ''/:a/*b'' (Some h) optionFns New)) method ''/x/y'' of
      (Some n, Some ps) \<Rightarrow>
        Handler n = None \<and> Param n = ''a'' \<and> ps ''a'' = Some ''/x/y'' \<and> ps ''b'' = None
    | _ \<Rightarrow> False)"
  by (simp add: eval_defs)

section \<open>The fallback on the trie of any method\<close>

text \<open>
  C4. \<^verbatim>\<open>Search\<close> resolves in the trie of the method when there is one; when that misses
  and there is a trie of \<^verbatim>\<open>ANY\<close>, it returns what the trie of \<^verbatim>\<open>ANY\<close> gives; without a
  trie of the method it resolves in the trie of \<^verbatim>\<open>ANY\<close>; without either there is no
  match. With \<^verbatim>\<open>/x\<close> registered under \<^verbatim>\<open>ANY\<close> only, \<^verbatim>\<open>GET\<close> and \<^verbatim>\<open>POST\<close> find the same
  node, which carries the handler; and a trie of \<^verbatim>\<open>GET\<close> that misses \<^verbatim>\<open>/y\<close> falls back on
  the route \<^verbatim>\<open>/y\<close> of \<^verbatim>\<open>ANY\<close>.
\<close>

theorem Search_fallback_policy:
  "(trees r method = Some t \<longrightarrow> fst (find_node t path) \<noteq> None \<longrightarrow>
      Search r method path = find_result t path) \<and>
   (trees r method = Some t \<longrightarrow> fst (find_node t path) = None \<longrightarrow>
      trees r MethodAny = Some a \<longrightarrow> Search r method path = find_result a path) \<and>
   (trees r method = Some t \<longrightarrow> fst (find_node t path) = None \<longrightarrow>
      trees r MethodAny = None \<longrightarrow> Search r method path = (None, None)) \<and>
   (trees r method = None \<longrightarrow> trees r MethodAny = Some a \<longrightarrow>
      Search r method path = find_result a path) \<and>
   (trees r method = None \<longrightarrow> trees r MethodAny = None \<longrightarrow>
      Search r method path = (None, None)) \<and>
   Search (snd (Handle ''ANY'' ''/x'' (Some h) optionFns New)) ''GET'' ''/x'' =
     Search (snd (Handle ''ANY'' ''/x'' (Some h) optionFns New)) ''POST'' ''/x'' \<and>
   (case Search (snd (Handle ''ANY'' ''/x'' (Some h) optionFns New)) ''GET'' ''/x'' of
      (Some n, Some ps) \<Rightarrow> Handler n = Some h \<and> ps = Map.empty
    | _ \<Rightarrow> False) \<and>
   (case Search (snd (Handle ''GET'' ''/z'' (Some g) optionFns
                        (snd (Handle ''ANY'' ''/y'' (Some h) optionFns New)))) ''GET'' ''/y'' of
      (Some n, Some ps) \<Rightarrow> Handler n = Some h \<and> ps = Map.empty
    | _ \<Rightarrow> False)"
proof -
  have 1: "trees r method = Some t \<longrightarrow> fst (find_node t path) \<noteq> None \<longrightarrow>
      Search r method path = find_result t path"
    by (simp add: Search_Some_hit)
  have 2: "trees r method = Some t \<longrightarrow> fst (find_node t path) = None \<longrightarrow>
      trees r MethodAny = Some a \<longrightarrow> Search r method path = find_result a path"
    using Search_Some_miss [of r "method" "t" "path"] by (simp add: any_result_def)
  have 3: "trees r method = Some t \<longrightarrow> fst (find_node t path) = None \<longrightarrow>
      trees r MethodAny = None \<longrightarrow> Search r method path = (None, None)"
    using Search_Some_miss [of r "method" "t" "path"] by (simp add: any_result_def)
  have 4: "trees r method = None \<longrightarrow> trees r MethodAny = Some a \<longrightarrow>
      Search r method path = find_result a path"
    using Search_None [of r "method" "path"] by (simp add: any_result_def)
  have 5: "trees r method = None \<longrightarrow> trees r MethodAny = None \<longrightarrow>
      Search r method path = (None, None)"
    using Search_None [of r "method" "path"] by (simp add: any_result_def)
  have 6: "Search (snd (Handle ''ANY'' ''/x'' (Some h) optionFns New)) ''GET'' ''/x'' =
     Search (snd (Handle ''ANY'' ''/x'' (Some h) optionFns New)) ''POST'' ''/x''"
    by (simp add: eval_defs)
  have 7: "case Search (snd (Handle ''ANY'' ''/x'' (Some h) optionFns New)) ''GET'' ''/x'' of
      (Some n, Some ps) \<Rightarrow> Handler n = Some h \<and> ps = Map.empty
    | _ \<Rightarrow> False"
    by (simp add: eval_defs)
  have 8: "case Search (snd (Handle ''GET'' ''/z'' (Some g) optionFns
                        (snd (Handle ''ANY'' ''/y'' (Some h) optionFns New)))) ''GET'' ''/y'' of
      (Some n, Some ps) \<Rightarrow> Handler n = Some h \<and> ps = Map.empty
    | _ \<Rightarrow> False"
    by (simp add: eval_defs)
  from 1 2 3 4 5 6 7 8 show ?thesis by (intro conjI)
qed

theorem Search_fallback_policy_witness:
  "trees (snd (Handle ''ANY'' ''/x'' (Some (Func (1::nat))) ([] :: string RouterOptionFn list) New))
     ''GET'' = None \<and>
   trees (snd (Handle ''ANY'' ''/x'' (Some (Func (1::nat))) ([] :: string RouterOptionFn list) New))
     MethodAny =
     Some (method_root (snd (Handle ''ANY'' ''/x'' (Some (Func (1::nat)))
             ([] :: string RouterOptionFn list) New)) ''ANY'') \<and>
   Search (snd (Handle ''ANY'' ''/x'' (Some (Func (1::nat))) ([] :: string RouterOptionFn list) New))
     ''GET'' ''/x'' =
     find_result (method_root (snd (Handle ''ANY'' ''/x'' (Some (Func (1::nat)))
             ([] :: string RouterOptionFn list) New)) ''ANY'') ''/x''"
proof -
  let ?r = "snd (Handle ''ANY'' ''/x'' (Some (Func (1::nat))) ([] :: string RouterOptionFn list) New)"
  have a: "trees ?r ''GET'' = None"
    by (simp add: eval_defs)
  have b: "trees ?r MethodAny = Some (method_root ?r ''ANY'')"
    by (simp add: eval_defs method_root_def)
  from a b Search_fallback_policy [of ?r "''GET''" _ "''/x''" "method_root ?r ''ANY''"]
  show ?thesis by blast
qed


section \<open>A node without a handler\<close>






section \<open>Literal child before capture child\<close>

text \<open>
  C8. At every segment the loop of \<^verbatim>\<open>find\<close> moves to the child stored under the text of
  the segment when there is one, to the child stored under the capture key only when there
  is none, and fails when there is neither. With \<^verbatim>\<open>/posts/new\<close> and \<^verbatim>\<open>/posts/:id\<close>
  registered, in either order, \<^verbatim>\<open>/posts/new\<close> finds the handler of \<^verbatim>\<open>/posts/new\<close> with
  an empty parameter map and \<^verbatim>\<open>/posts/123\<close> finds the handler of \<^verbatim>\<open>/posts/:id\<close> with
  \<open>id\<close> bound to \<open>123\<close>.
\<close>

theorem literal_child_preferred:
  "(Children cur k = Some n \<longrightarrow> find_loop (k # ks) cur ps = visit k ks n ps) \<and>
   (Children cur k = None \<longrightarrow> Children cur ''*'' = Some c \<longrightarrow>
      find_loop (k # ks) cur ps = visit k ks c ps) \<and>
   (Children cur k = None \<longrightarrow> Children cur ''*'' = None \<longrightarrow>
      find_loop (k # ks) cur ps = (None, ps)) \<and>
   fst (Handle ''GET'' ''/posts/new'' (Some hnew) optionFns New) = None \<and>
   fst (Handle ''GET'' ''/posts/:id'' (Some hid) optionFns
          (snd (Handle ''GET'' ''/posts/new'' (Some hnew) optionFns New))) = None \<and>
   (case Search (snd (Handle ''GET'' ''/posts/:id'' (Some hid) optionFns
                   (snd (Handle ''GET'' ''/posts/new'' (Some hnew) optionFns New))))
           ''GET'' ''/posts/new'' of
      (Some x, Some params) \<Rightarrow> Handler x = Some hnew \<and> params = Map.empty
    | _ \<Rightarrow> False) \<and>
   (case Search (snd (Handle ''GET'' ''/posts/:id'' (Some hid) optionFns
                   (snd (Handle ''GET'' ''/posts/new'' (Some hnew) optionFns New))))
           ''GET'' ''/posts/123'' of
      (Some x, Some params) \<Rightarrow> Handler x = Some hid \<and> params = [''id'' \<mapsto> ''123'']
    | _ \<Rightarrow> False) \<and>
   fst (Handle ''GET'' ''/posts/:id'' (Some hid) optionFns New) = None \<and>
   fst (Handle ''GET'' ''/posts/new'' (Some hnew) optionFns
          (snd (Handle ''GET'' ''/posts/:id'' (Some hid) optionFns New))) = None \<and>
   (case Search (snd (Handle ''GET'' ''/posts/new'' (Some hnew) optionFns
                   (snd (Handle ''GET'' ''/posts/:id'' (Some hid) optionFns New))))
           ''GET'' ''/posts/new'' of
      (Some x, Some params) \<Rightarrow> Handler x = Some hnew \<and> params = Map.empty
    | _ \<Rightarrow> False) \<and>
   (case Search (snd (Handle ''GET'' ''/posts/new'' (Some hnew) optionFns
                   (snd (Handle ''GET'' ''/posts/:id'' (Some hid) optionFns New))))
           ''GET'' ''/posts/123'' of
      (Some x, Some params) \<Rightarrow> Handler x = Some hid \<and> params = [''id'' \<mapsto> ''123'']
    | _ \<Rightarrow> False)"
proof -
  have 1: "Children cur k = Some n \<longrightarrow> find_loop (k # ks) cur ps = visit k ks n ps"
    by (simp add: visit_def)
  have 2: "Children cur k = None \<longrightarrow> Children cur ''*'' = Some c \<longrightarrow>
      find_loop (k # ks) cur ps = visit k ks c ps"
    by (simp add: visit_def)
  have 3: "Children cur k = None \<longrightarrow> Children cur ''*'' = None \<longrightarrow>
      find_loop (k # ks) cur ps = (None, ps)"
    by simp
  have 4: "fst (Handle ''GET'' ''/posts/new'' (Some hnew) optionFns New) = None"
    by (simp add: eval_defs)
  have 5: "fst (Handle ''GET'' ''/posts/:id'' (Some hid) optionFns
          (snd (Handle ''GET'' ''/posts/new'' (Some hnew) optionFns New))) = None"
    by (simp add: eval_defs)
  have 6: "case Search (snd (Handle ''GET'' ''/posts/:id'' (Some hid) optionFns
                   (snd (Handle ''GET'' ''/posts/new'' (Some hnew) optionFns New))))
           ''GET'' ''/posts/new'' of
      (Some x, Some params) \<Rightarrow> Handler x = Some hnew \<and> params = Map.empty
    | _ \<Rightarrow> False"
    by (simp add: eval_defs)
  have 7: "case Search (snd (Handle ''GET'' ''/posts/:id'' (Some hid) optionFns
                   (snd (Handle ''GET'' ''/posts/new'' (Some hnew) optionFns New))))
           ''GET'' ''/posts/123'' of
      (Some x, Some params) \<Rightarrow> Handler x = Some hid \<and> params = [''id'' \<mapsto> ''123'']
    | _ \<Rightarrow> False"
    by (simp add: eval_defs)
  have 8: "fst (Handle ''GET'' ''/posts/:id'' (Some hid) optionFns New) = None"
    by (simp add: eval_defs)
  have 9: "fst (Handle ''GET'' ''/posts/new'' (Some hnew) optionFns
          (snd (Handle ''GET'' ''/posts/:id'' (Some hid) optionFns New))) = None"
    by (simp add: eval_defs)
  have 10: "case Search (snd (Handle ''GET'' ''/posts/new'' (Some hnew) optionFns
                   (snd (Handle ''GET'' ''/posts/:id'' (Some hid) optionFns New))))
           ''GET'' ''/posts/new'' of
      (Some x, Some params) \<Rightarrow> Handler x = Some hnew \<and> params = Map.empty
    | _ \<Rightarrow> False"
    by (simp add: eval_defs)
  have 11: "case Search (snd (Handle ''GET'' ''/posts/new'' (Some hnew) optionFns
                   (snd (Handle ''GET'' ''/posts/:id'' (Some hid) optionFns New))))
           ''GET'' ''/posts/123'' of
      (Some x, Some params) \<Rightarrow> Handler x = Some hid \<and> params = [''id'' \<mapsto> ''123'']
    | _ \<Rightarrow> False"
    by (simp add: eval_defs)
  from 1 2 3 4 5 6 7 8 9 10 11 show ?thesis by (intro conjI)
qed

theorem literal_child_preferred_witness:
  "Children (set_child (set_child empty_root ''*'' (new_node ''/:id'' \<lparr>Tag = None\<rparr> 0 '':id''))
              ''new'' (set_Handler (new_node ''/new'' \<lparr>Tag = None\<rparr> 0 ''new'') (Func (1::nat))))
     ''new'' =
     Some (set_Handler (new_node ''/new'' \<lparr>Tag = None :: string option\<rparr> 0 ''new'') (Func 1)) \<and>
   find_loop [''new'']
     (set_child (set_child empty_root ''*'' (new_node ''/:id'' \<lparr>Tag = None\<rparr> 0 '':id''))
        ''new'' (set_Handler (new_node ''/new'' \<lparr>Tag = None\<rparr> 0 ''new'') (Func (1::nat))))
     Map.empty =
     visit ''new'' [] (set_Handler (new_node ''/new'' \<lparr>Tag = None :: string option\<rparr> 0 ''new'')
       (Func 1)) Map.empty"
proof -
  let ?n = "set_Handler (new_node ''/new'' \<lparr>Tag = None :: string option\<rparr> 0 ''new'')
              (Func (1::nat))"
  let ?cur = "set_child (set_child empty_root ''*''
                (new_node ''/:id'' \<lparr>Tag = None :: string option\<rparr> 0 '':id'')) ''new'' ?n"
  have a: "Children ?cur ''new'' = Some ?n" by (simp add: set_child_def)
  from a literal_child_preferred [where cur = ?cur and k = "''new''" and n = ?n and ks = "[]"
      and ps = Map.empty]
  show ?thesis by blast
qed

section \<open>Registering what is already there\<close>

lemma Children_set_Handler: "Children (set_Handler n h) = Children n"
  by (simp add: set_Handler_def)

lemma add_finish_True: "add_finish h True cur = (Some ErrRouterDuplicate, cur)"
  by (simp add: add_finish_def)

lemma Children_add_finish: "Children (snd (add_finish h dup cur)) = Children cur"
  by (simp add: add_finish_def Children_set_Handler)

lemma add_loop_again:
  "(sp \<longrightarrow> sp2) \<Longrightarrow>
   fst (add_loop p h opt stars ks dup sp cur) \<noteq> Some ErrRouterSyntax \<Longrightarrow>
   fst (add_loop p2 h2 opt2 stars ks True sp2 (snd (add_loop p h opt stars ks dup sp cur))) =
     Some ErrRouterDuplicate"
proof (induction ks arbitrary: dup sp sp2 cur)
  case Nil
  then show ?case by (simp add: add_finish_True)
next
  case (Cons k0 ks)
  let ?k = "seg_key k0"
  show ?case
  proof (cases "stars > 0 \<and> sp")
    case True
    with Cons.prems have sp2: "stars > 0" "sp2" by simp_all
    from True Cons.prems(2) obtain c where c: "Children cur ?k = Some c"
      by (cases "Children cur ?k") (simp_all add: add_loop_stop)
    with True have first: "add_loop p h opt stars (k0 # ks) dup sp cur = add_finish h dup cur"
      by (simp add: add_loop_stop)
    have "Children (snd (add_finish h dup cur)) ?k = Some c"
      using c by (simp add: Children_add_finish)
    then show ?thesis
      by (simp add: first add_loop_stop [OF sp2] add_finish_True)
  next
    case False
    define rec where "rec = (case Children cur ?k of
        Some nxt \<Rightarrow> add_loop p h opt stars ks dup True nxt
      | None \<Rightarrow> add_loop p h opt stars ks False sp (new_node p opt stars k0))"
    have first: "add_loop p h opt stars (k0 # ks) dup sp cur =
        (fst rec, set_child cur ?k (snd rec))"
      using False by (cases "Children cur ?k") (simp_all add: rec_def add_loop_Some add_loop_None)
    with Cons.prems(2) have ok: "fst rec \<noteq> Some ErrRouterSyntax" by simp
    have ch: "Children (set_child cur ?k (snd rec)) ?k = Some (snd rec)"
      by (simp add: Children_set_child)
    have again: "fst (add_loop p2 h2 opt2 stars ks True True (snd rec)) = Some ErrRouterDuplicate"
    proof (cases "Children cur ?k")
      case None
      then have r: "rec = add_loop p h opt stars ks False sp (new_node p opt stars k0)"
        by (simp add: rec_def)
      show ?thesis
        unfolding r by (rule Cons.IH) (use ok r in simp_all)
    next
      case (Some nxt)
      then have r: "rec = add_loop p h opt stars ks dup True nxt"
        by (simp add: rec_def)
      show ?thesis
        unfolding r by (rule Cons.IH) (use ok r in simp_all)
    qed
    show ?thesis
    proof (cases "stars > 0 \<and> sp2")
      case True
      then show ?thesis
        using ch by (simp add: first add_loop_stop add_finish_True)
    next
      case False
      from add_loop_Some [OF False ch] again show ?thesis
        by (simp add: first)
    qed
  qed
qed

lemma add_loop_has_path:
  "has_path (map seg_key ks) cur \<Longrightarrow>
   fst (add_loop p h opt stars ks True sp cur) = Some ErrRouterDuplicate"
proof (induction ks arbitrary: sp cur)
  case Nil
  then show ?case by (simp add: add_finish_True)
next
  case (Cons k0 ks)
  from Cons.prems obtain nxt where c: "Children cur (seg_key k0) = Some nxt"
    and h: "has_path (map seg_key ks) nxt"
    by (auto split: option.splits)
  show ?case
  proof (cases "stars > 0 \<and> sp")
    case True
    with c show ?thesis by (simp add: add_loop_stop add_finish_True)
  next
    case False
    from add_loop_Some [OF False c] Cons.IH [OF h] show ?thesis by simp
  qed
qed

lemma add_loop_ok_has_path:
  "fst (add_loop p h opt stars ks dup sp cur) = None \<Longrightarrow>
   dup \<or> (Children cur = Map.empty \<and> \<not> (stars > 0 \<and> sp)) \<Longrightarrow>
   has_path (map seg_key ks) (snd (add_loop p h opt stars ks dup sp cur))"
proof (induction ks arbitrary: dup sp cur)
  case Nil
  then show ?case by simp
next
  case (Cons k0 ks)
  let ?k = "seg_key k0"
  have ns: "\<not> (stars > 0 \<and> sp)"
  proof
    assume s: "stars > 0 \<and> sp"
    with Cons.prems(2) have dup by simp
    with s Cons.prems(1) show False
      by (cases "Children cur ?k") (simp_all add: add_loop_stop add_finish_True)
  qed
  show ?case
  proof (cases "Children cur ?k")
    case None
    from Cons.prems(1) have ok: "fst (add_loop p h opt stars ks False sp (new_node p opt stars k0)) = None"
      by (simp add: add_loop_None [OF ns None])
    have "has_path (map seg_key ks) (snd (add_loop p h opt stars ks False sp (new_node p opt stars k0)))"
      by (rule Cons.IH [OF ok]) (use ns in \<open>simp add: Children_new_node\<close>)
    then show ?thesis
      by (simp add: add_loop_None [OF ns None] Children_set_child)
  next
    case (Some nxt)
    with Cons.prems(2) have d: dup by auto
    from Cons.prems(1) have ok: "fst (add_loop p h opt stars ks dup True nxt) = None"
      by (simp add: add_loop_Some [OF ns Some])
    have "has_path (map seg_key ks) (snd (add_loop p h opt stars ks dup True nxt))"
      by (rule Cons.IH [OF ok]) (use d in simp)
    then show ?thesis
      by (simp add: add_loop_Some [OF ns Some] Children_set_child)
  qed
qed

lemma has_path_append: "has_path (xs @ ys) n \<Longrightarrow> has_path xs n"
  by (induction xs arbitrary: n) (auto split: option.splits)

lemma add_again:
  "fst (add n p h opt) \<noteq> Some ErrRouterSyntax \<Longrightarrow>
   fst (add (snd (add n p h opt)) p h2 opt2) = Some ErrRouterDuplicate"
  by (auto simp: add_eq add_loop_again split: if_splits)

lemma add_has_path:
  "length (filter is_star (path_slice p)) \<le> 1 \<Longrightarrow> has_path (map seg_key (path_slice p)) n \<Longrightarrow>
   fst (add n p h opt) = Some ErrRouterDuplicate"
  by (simp add: add_eq add_loop_has_path)

lemma add_ok_has_path:
  "fst (add n p h opt) = None \<Longrightarrow> has_path (map seg_key (path_slice p)) (snd (add n p h opt))"
  by (auto simp: add_eq add_loop_ok_has_path split: if_splits)

lemma method_root_Handle:
  "method_root (snd (Handle m p h fs r)) m =
     snd (add (method_root r m) p (handler_or_Noop h) (apply_options fs))"
  by (simp add: Handle_eq method_root_def)

lemma fst_Handle:
  "fst (Handle m p h fs r) = fst (add (method_root r m) p (handler_or_Noop h) (apply_options fs))"
  by (simp add: Handle_eq)

lemma error_cases: "e \<noteq> Some ErrRouterSyntax \<Longrightarrow> e = None \<or> e = Some ErrRouterDuplicate"
  by (cases e) (auto intro: error.exhaust)

text \<open>
  C3, as the code has it. \<^verbatim>\<open>Handle\<close> returns the duplicate error exactly when it does not
  return the syntax error and leaves the trie of the method without a new node (the trie is
  the one it started from, or the empty root it has just allocated). When a first
  registration did not return the syntax error, the same method and pattern registered
  again give the duplicate error. A pattern with at most one wildcard segment whose keys
  are all in the trie already gives the duplicate error; so does, after a successful
  registration, any pattern with at most one wildcard segment whose keys are a prefix of
  the keys just registered.
\<close>

theorem DuplicateRoute_characterised:
  "(fst (Handle m p h fs r) = Some ErrRouterDuplicate \<longleftrightarrow>
      fst (Handle m p h fs r) \<noteq> Some ErrRouterSyntax \<and>
      trees (snd (Handle m p h fs r)) m = Some (method_root r m)) \<and>
   (fst (Handle m p h fs r) \<noteq> Some ErrRouterSyntax \<longrightarrow>
      fst (Handle m p h2 fs2 (snd (Handle m p h fs r))) = Some ErrRouterDuplicate) \<and>
   (length (filter is_star (path_slice p)) \<le> 1 \<longrightarrow>
      has_path (map seg_key (path_slice p)) (method_root r m) \<longrightarrow>
      fst (Handle m p h fs r) = Some ErrRouterDuplicate) \<and>
   (fst (Handle m p h fs r) = None \<longrightarrow>
      map seg_key (path_slice p) = map seg_key (path_slice q) @ rest \<longrightarrow>
      length (filter is_star (path_slice q)) \<le> 1 \<longrightarrow>
      fst (Handle m q h2 fs2 (snd (Handle m p h fs r))) = Some ErrRouterDuplicate)"
proof -
  let ?a = "add (method_root r m) p (handler_or_Noop h) (apply_options fs)"
  have tr: "trees (snd (Handle m p h fs r)) m = Some (snd ?a)"
    by (simp add: Handle_eq)
  have 1: "fst (Handle m p h fs r) = Some ErrRouterDuplicate \<longleftrightarrow>
      fst (Handle m p h fs r) \<noteq> Some ErrRouterSyntax \<and>
      trees (snd (Handle m p h fs r)) m = Some (method_root r m)"
  proof
    assume d: "fst (Handle m p h fs r) = Some ErrRouterDuplicate"
    then have "fst ?a \<noteq> None" by (simp add: fst_Handle)
    then have "snd ?a = method_root r m" by (rule add_error_unchanged)
    with d tr show "fst (Handle m p h fs r) \<noteq> Some ErrRouterSyntax \<and>
      trees (snd (Handle m p h fs r)) m = Some (method_root r m)" by simp
  next
    assume a: "fst (Handle m p h fs r) \<noteq> Some ErrRouterSyntax \<and>
      trees (snd (Handle m p h fs r)) m = Some (method_root r m)"
    with tr have same: "snd ?a = method_root r m" by simp
    have "fst ?a \<noteq> None"
    proof
      assume "fst ?a = None"
      from add_ok_changed [OF this] same show False by simp
    qed
    with a error_cases [of "fst ?a"] show "fst (Handle m p h fs r) = Some ErrRouterDuplicate"
      by (auto simp: fst_Handle)
  qed
  have 2: "fst (Handle m p h fs r) \<noteq> Some ErrRouterSyntax \<longrightarrow>
      fst (Handle m p h2 fs2 (snd (Handle m p h fs r))) = Some ErrRouterDuplicate"
    by (simp add: fst_Handle [of m p h2] method_root_Handle fst_Handle [of m p h fs r] add_again)
  have 3: "length (filter is_star (path_slice p)) \<le> 1 \<longrightarrow>
      has_path (map seg_key (path_slice p)) (method_root r m) \<longrightarrow>
      fst (Handle m p h fs r) = Some ErrRouterDuplicate"
    by (simp add: fst_Handle add_has_path)
  have 4: "fst (Handle m p h fs r) = None \<longrightarrow>
      map seg_key (path_slice p) = map seg_key (path_slice q) @ rest \<longrightarrow>
      length (filter is_star (path_slice q)) \<le> 1 \<longrightarrow>
      fst (Handle m q h2 fs2 (snd (Handle m p h fs r))) = Some ErrRouterDuplicate"
  proof (intro impI)
    assume ok: "fst (Handle m p h fs r) = None"
      and pre: "map seg_key (path_slice p) = map seg_key (path_slice q) @ rest"
      and st: "length (filter is_star (path_slice q)) \<le> 1"
    from ok have "fst ?a = None" by (simp add: fst_Handle)
    from add_ok_has_path [OF this] pre have "has_path (map seg_key (path_slice q) @ rest) (snd ?a)"
      by simp
    then have "has_path (map seg_key (path_slice q)) (snd ?a)" by (rule has_path_append)
    from add_has_path [OF st this] show
      "fst (Handle m q h2 fs2 (snd (Handle m p h fs r))) = Some ErrRouterDuplicate"
      by (simp add: fst_Handle [of m q h2] method_root_Handle)
  qed
  from 1 2 3 4 show ?thesis by (intro conjI)
qed

theorem DuplicateRoute_characterised_witness:
  "fst (Handle ''GET'' ''/a/:b'' (Some (Func (1::nat))) ([] :: string RouterOptionFn list) New) = None \<and>
   map seg_key (path_slice ''/a/:b'') = map seg_key (path_slice ''/a'') @ [''*''] \<and>
   length (filter is_star (path_slice ''/a'')) \<le> 1 \<and>
   fst (Handle ''GET'' ''/a/:b'' None []
          (snd (Handle ''GET'' ''/a/:b'' (Some (Func (1::nat))) ([] :: string RouterOptionFn list) New))) =
     Some ErrRouterDuplicate \<and>
   fst (Handle ''GET'' ''/a'' None []
          (snd (Handle ''GET'' ''/a/:b'' (Some (Func (1::nat))) ([] :: string RouterOptionFn list) New))) =
     Some ErrRouterDuplicate"
proof -
  let ?r = "New :: (nat, string) Router"
  let ?h = "Some (Func (1::nat))"
  let ?fs = "[] :: string RouterOptionFn list"
  have a: "fst (Handle ''GET'' ''/a/:b'' ?h ?fs ?r) = None"
    by (simp add: eval_defs)
  have b: "map seg_key (path_slice ''/a/:b'') = map seg_key (path_slice ''/a'') @ [''*'']"
    by (simp add: path_slice_def strings_TrimPrefix_def seg_key_def is_capture_def)
  have c: "length (filter is_star (path_slice ''/a'')) \<le> 1"
    by (simp add: path_slice_def strings_TrimPrefix_def is_star_def)
  from a b c DuplicateRoute_characterised [where m = "''GET''" and p = "''/a/:b''" and h = ?h
      and fs = ?fs and r = ?r and ?h2.0 = None and ?fs2.0 = "[]" and q = "''/a''" and rest = "[''*'']"]
  show ?thesis by simp
qed

text \<open>
  The claim as stated fails where the syntax error comes first: after \<^verbatim>\<open>/posts2\<close>, the
  pattern \<^verbatim>\<open>/posts2/*id\<close> creates no node and the error is the syntax error; and after
  \<^verbatim>\<open>/a/:b/:c\<close>, every key of \<^verbatim>\<open>/a/*b/*c\<close> is in the trie and the error is the syntax
  error.
\<close>

theorem no_new_node_without_DuplicateRoute_counterexample:
  "fst (Handle ''GET'' ''/posts2/*id'' None ([] :: string RouterOptionFn list)
          (snd (Handle ''GET'' ''/posts2'' (None :: nat HandlerFunc option) [] New))) =
     Some ErrRouterSyntax \<and>
   trees (snd (Handle ''GET'' ''/posts2/*id'' None ([] :: string RouterOptionFn list)
          (snd (Handle ''GET'' ''/posts2'' (None :: nat HandlerFunc option) [] New)))) =
     trees (snd (Handle ''GET'' ''/posts2'' (None :: nat HandlerFunc option)
          ([] :: string RouterOptionFn list) New)) \<and>
   fst (Handle ''GET'' ''/a/*b/*c'' None ([] :: string RouterOptionFn list)
          (snd (Handle ''GET'' ''/a/:b/:c'' (None :: nat HandlerFunc option) [] New))) =
     Some ErrRouterSyntax \<and>
   has_path (map seg_key (path_slice ''/a/*b/*c''))
     (method_root (snd (Handle ''GET'' ''/a/:b/:c'' (None :: nat HandlerFunc option)
          ([] :: string RouterOptionFn list) New)) ''GET'')"
proof -
  let ?r = "snd (Handle ''GET'' ''/posts2'' (None :: nat HandlerFunc option)
          ([] :: string RouterOptionFn list) New)"
  have e: "fst (Handle ''GET'' ''/posts2/*id'' None ([] :: string RouterOptionFn list) ?r) =
     Some ErrRouterSyntax"
    by (simp add: eval_defs)
  then have "fst (Handle ''GET'' ''/posts2/*id'' None ([] :: string RouterOptionFn list) ?r) \<noteq> None"
    by simp
  from Handle_error_trees [OF this]
  have t: "trees (snd (Handle ''GET'' ''/posts2/*id'' None ([] :: string RouterOptionFn list) ?r)) =
     trees ?r"
    by (simp add: method_root_def Handle_eq)
  have s: "fst (Handle ''GET'' ''/a/*b/*c'' None ([] :: string RouterOptionFn list)
          (snd (Handle ''GET'' ''/a/:b/:c'' (None :: nat HandlerFunc option) [] New))) =
     Some ErrRouterSyntax"
    by (simp add: eval_defs)
  have p: "has_path (map seg_key (path_slice ''/a/*b/*c''))
     (method_root (snd (Handle ''GET'' ''/a/:b/:c'' (None :: nat HandlerFunc option)
          ([] :: string RouterOptionFn list) New)) ''GET'')"
    by (simp add: eval_defs path_slice_def seg_key_def is_capture_def method_root_def)
  from e t s p show ?thesis by (intro conjI)
qed

section \<open>Captures registered again, extended, and in conflict\<close>










section \<open>A bare star\<close>


lemma find_node_path_slice: "find_node t path = find_loop (path_slice path) t Map.empty"
  by (simp add: find_node_def path_slice_def)





section \<open>The binding of a trailing wildcard\<close>


















section \<open>Patterns without wildcard\<close>

lemma Star_add_loop: "Star (snd (add_loop p h opt stars ks dup sp cur)) = Star cur"
  by (cases ks)
     (auto simp: add_finish_def set_Handler_def set_child_def add_loop_Cons split: option.splits)

lemma find_capture_chain:
  assumes "list_all2 (\<lambda>k q. is_capture k \<or> q = k) ks qs" and "Children cur = Map.empty"
  shows "\<exists>n ps'. find_loop qs (snd (add_loop p h opt 0 ks False sp cur)) ps = (Some n, ps') \<and>
           Handler n = Some h"
  using assms
proof (induction ks qs arbitrary: cur ps rule: list_all2_induct)
  case Nil
  then show ?case by (simp add: add_finish_def set_Handler_def)
next
  case (Cons k ks q qs)
  let ?N = "snd (add_loop p h opt 0 ks False sp (new_node p opt 0 k))"
  from Cons.prems have none: "Children cur (seg_key k) = None" by simp
  have r: "snd (add_loop p h opt 0 (k # ks) False sp cur) = set_child cur (seg_key k) ?N"
    using none by (simp add: add_loop_Cons)
  have ch: "(case Children (set_child cur (seg_key k) ?N) q of Some x \<Rightarrow> Some x
             | None \<Rightarrow> Children (set_child cur (seg_key k) ?N) ''*'') = Some ?N"
    using Cons.hyps(1) Cons.prems by (auto simp: set_child_def seg_key_def)
  have st: "\<not> Star ?N" by (simp add: Star_add_loop new_node_def)
  from Cons.IH [OF Children_new_node] obtain n ps' where
    "find_loop qs ?N (if Param ?N \<noteq> [] then ps(Param ?N \<mapsto> q) else ps) = (Some n, ps')"
    "Handler n = Some h"
    by blast
  with st ch show ?case by (auto simp: r)
qed

text \<open>
  Where no wildcard is involved the resolution of a registered pattern works: a pattern
  without a segment \<^verbatim>\<open>*name\<close>, registered under a method without trie, is found for
  every path that has the same literal segments and any text in the place of each capture,
  and the node found carries the handler registered. Together with the theorem on the
  trailing wildcard after literal segments, this leaves the capture before a wildcard as
  the case in which the resolution of a pattern just registered goes wrong.
\<close>

lemma pattern_without_wildcard_resolves:
  assumes "trees r m = None" and "filter is_star (path_slice p) = []"
    and "list_all2 (\<lambda>k q. is_capture k \<or> q = k) (path_slice p) (path_slice q)"
  shows "fst (Handle m p h fs r) = None \<and>
         (\<exists>n ps. Search (snd (Handle m p h fs r)) m q = (Some n, Some ps) \<and>
                 Handler n = Some (handler_or_Noop h))"
proof -
  let ?h = "handler_or_Noop h" and ?o = "apply_options fs"
  obtain k ks where sl: "path_slice p = k # ks"
    using strings_Split_not_Nil [of "strings_TrimPrefix p ''/''" "CHR ''/''"]
    by (cases "path_slice p") (simp_all add: path_slice_def)
  let ?N = "add_loop p ?h ?o 0 ks False False (new_node p ?o 0 k)"
  let ?t = "set_child empty_root (seg_key k) (snd ?N)"
  from assms(1) have root: "method_root r m = empty_root" by (simp add: method_root_def)
  have e: "Children (empty_root :: ('a, 'b) Node) = Map.empty" by (simp add: empty_root_def)
  have a: "add empty_root p ?h ?o = (fst ?N, ?t)"
    using assms(2) e by (simp add: add_eq sl add_loop_Cons)
  have "fst ?N = None"
    by (rule add_loop_fresh_ok [OF Children_new_node]) simp
  with a have ok: "fst (Handle m p h fs r) = None" by (simp add: fst_Handle root)
  have tr: "trees (snd (Handle m p h fs r)) m = Some ?t" by (simp add: Handle_eq root a)
  have t: "?t = snd (add_loop p ?h ?o 0 (path_slice p) False False empty_root)"
    using e by (simp add: sl add_loop_Cons)
  from find_capture_chain [OF assms(3) e, of p ?h ?o False Map.empty] obtain n ps
    where f: "find_node ?t q = (Some n, ps)" and hn: "Handler n = Some ?h"
    unfolding t find_node_path_slice by blast
  then have "fst (find_node ?t q) \<noteq> None" by simp
  from Search_Some_hit [OF tr this] f hn ok show ?thesis by (simp add: find_result_def)
qed

end
